theory Spec2Isabelle
  imports Main "HOL-Library.Sublist" "HOL-Library.List_Lexorder" "HOL-Library.Char_ord"
begin

section \<open>Strings, substring tests and the two regular expressions\<close>

text \<open>
  A Python \<open>str\<close> is a \<^typ>\<open>string\<close>; characters are read as code points below 256.
\<close>

abbreviation nl :: char where
  "nl \<equiv> CHR 0x0A"

text \<open>\<open>sub in line\<close> of Python: \<open>sub\<close> occurs at some position of \<open>line\<close>.\<close>

fun str_in :: "string \<Rightarrow> string \<Rightarrow> bool" where
  "str_in sub [] = (sub = [])"
| "str_in sub (c # cs) = (prefix sub (c # cs) \<or> str_in sub cs)"

text \<open>
  \<open>str.isspace\<close> on the code points below 256, and \<open>str.strip()\<close>, which removes the
  white space at both ends.
\<close>

definition is_space :: "char \<Rightarrow> bool" where
  "is_space c = (c \<in> set [CHR 0x09, CHR 0x0A, CHR 0x0B, CHR 0x0C, CHR 0x0D,
     CHR 0x1C, CHR 0x1D, CHR 0x1E, CHR 0x1F, CHR 0x20, CHR 0x85, CHR 0xA0])"

definition strip :: "string \<Rightarrow> string" where
  "strip s = rev (dropWhile is_space (rev (dropWhile is_space s)))"

text \<open>
  The group \<open>(.+)\<close> of both patterns, matched at the start of \<open>rest\<close> and followed by a
  blank and one of the phrases \<open>kws\<close>. The dot does not match a line feed, the group is
  not empty, and it is greedy: the longest group that lets the rest of the pattern match
  is the one returned.
\<close>

definition group_greedy :: "string list \<Rightarrow> string \<Rightarrow> string option" where
  "group_greedy kws rest =
     (let m = length (takeWhile (\<lambda>c. c \<noteq> nl) rest) in
      map_option (\<lambda>n. take n rest)
        (find (\<lambda>n. list_ex (\<lambda>kw. prefix (CHR '' '' # kw) (drop n rest)) kws)
           (rev [1..<Suc m])))"

text \<open>
  \<open>re.search(r': (.+) KW', line)\<close> with \<open>KW\<close> one phrase or an alternation of phrases:
  the leftmost position where the pattern matches wins; the result is \<open>match.group(1)\<close>,
  and \<open>None\<close> when the pattern matches nowhere.
\<close>

fun re_search :: "string list \<Rightarrow> string \<Rightarrow> string option" where
  "re_search kws [] = None"
| "re_search kws (c # cs) =
     (if prefix '': '' (c # cs) then
        (case group_greedy kws (drop 2 (c # cs)) of
           Some g \<Rightarrow> Some g
         | None \<Rightarrow> re_search kws cs)
      else re_search kws cs)"

definition search_joined :: "string \<Rightarrow> string option" where
  "search_joined line = re_search [''joined the game''] line"

definition search_left :: "string \<Rightarrow> string option" where
  "search_left line = re_search [''left the game'', ''lost connection''] line"

section \<open>Embeds and the display channel\<close>

datatype colour = Green | Red

record embed_field =
  name :: string
  val :: string
  inline :: bool

record embed =
  title :: string
  color :: colour
  description :: string
  embed_fields :: "embed_field list"

text \<open>\<open>str(n)\<close> for a natural number, as the f-string formats \<open>len(players)\<close>.\<close>

function str_nat :: "nat \<Rightarrow> string" where
  "str_nat n =
     (if n < 10 then [char_of (48 + n)]
      else str_nat (n div 10) @ [char_of (48 + n mod 10)])"
  by pat_completeness auto
termination
  by (relation "measure id") auto

declare str_nat.simps [simp del]

text \<open>\<open>sep.join(xs)\<close>.\<close>

fun join :: "string \<Rightarrow> string list \<Rightarrow> string" where
  "join sep [] = []"
| "join sep [x] = x"
| "join sep (x # y # ys) = x @ sep @ join sep (y # ys)"

text \<open>
  The embed \<open>update_embed\<close> builds (lines 133 to 142). \<open>iter\<close> is the order in which
  Python iterates over the set object \<open>players\<close>, which the language leaves open; it is
  a parameter, and nothing below depends on it.
\<close>

definition make_embed :: "(string set \<Rightarrow> string list) \<Rightarrow> string \<Rightarrow> string set \<Rightarrow> embed" where
  "make_embed iter server ps =
     \<lparr>title = server @ '' - '' @ (if ps \<noteq> {} then ''Online'' else ''Offline''),
      color = (if ps \<noteq> {} then Green else Red),
      description = ''**Players Online:** '' @ str_nat (card ps),
      embed_fields = (if ps \<noteq> {}
         then [\<lparr>name = ''Players'', val = join '', '' (iter ps), inline = False\<rparr>]
         else [])\<rparr>"

text \<open>
  Modelled from the spec: the display channel client (the discord library, not part of
  this repository). Section 6 of the specification gives its interface: sending a card
  returns a message identifier, editing a card by identifier succeeds or reports
  not-found. The channel holds the cards by identifier; \<open>next_id\<close> is the identifier the
  next card gets (identifiers are not reused).
\<close>

record channel =
  msgs :: "nat \<rightharpoonup> embed"
  next_id :: nat

datatype error = KeyError | NotFound | FileNotFoundError

definition fetch_message :: "channel \<Rightarrow> nat \<Rightarrow> error + nat" where
  "fetch_message ch message_id =
     (case msgs ch message_id of None \<Rightarrow> Inl NotFound | Some e \<Rightarrow> Inr message_id)"

definition edit :: "channel \<Rightarrow> nat \<Rightarrow> embed \<Rightarrow> error + channel" where
  "edit ch message_id e =
     (case msgs ch message_id of
        None \<Rightarrow> Inl NotFound
      | Some old \<Rightarrow> Inr (ch\<lparr>msgs := (msgs ch)(message_id \<mapsto> e)\<rparr>))"

definition send :: "channel \<Rightarrow> embed \<Rightarrow> channel \<times> nat" where
  "send ch e =
     (ch\<lparr>msgs := (msgs ch)(next_id ch \<mapsto> e), next_id := Suc (next_id ch)\<rparr>, next_id ch)"

section \<open>The state of the bot\<close>

text \<open>The entry \<open>player_tracker[server]\<close>: a dictionary with three fixed keys.\<close>

record server_state =
  players :: "string set"
  log_file :: string
  position :: nat

datatype level = DEBUG | INFO | WARNING

datatype log_event =
    Embed_ids_loaded
  | Embed_ids_saved
  | Bot_connected
  | Channel_cached
  | Channel_not_found
  | No_log_file string
  | Initialized string nat
  | Channel_not_cached string
  | Updated_embed string
  | Embed_not_found string
  | Starting_log_monitor string
  | New_log_entry string string
  | Player_joined string string
  | Player_left string string

text \<open>
  The module's globals (lines 49 to 51), the file \<open>embed_ids.json\<close> (\<open>None\<close> while it does
  not exist; a dictionary of message identifiers by server name survives
  \<open>json.dump\<close> and \<open>json.load\<close> unchanged), the channel on the display service, and the
  records written by \<open>logging\<close>. \<open>sync_calls\<close> is instrumentation: it counts the
  invocations of \<open>update_embed\<close> and is read by nothing.
\<close>

record world =
  embed_tracker :: "string \<rightharpoonup> nat"
  player_tracker :: "string \<rightharpoonup> server_state"
  channel_cache :: "nat option"
  embed_ids_file :: "(string \<rightharpoonup> nat) option"
  discord :: channel
  activity_log :: "(level \<times> log_event) list"
  sync_calls :: nat

definition logging :: "level \<Rightarrow> log_event \<Rightarrow> world \<Rightarrow> world" where
  "logging lv ev w = w\<lparr>activity_log := activity_log w @ [(lv, ev)]\<rparr>"

definition load_embed_ids :: "world \<Rightarrow> world" where
  "load_embed_ids w =
     (case embed_ids_file w of
        None \<Rightarrow> w
      | Some m \<Rightarrow> logging INFO Embed_ids_loaded (w\<lparr>embed_tracker := m\<rparr>))"

definition save_embed_ids :: "world \<Rightarrow> world" where
  "save_embed_ids w =
     logging INFO Embed_ids_saved (w\<lparr>embed_ids_file := Some (embed_tracker w)\<rparr>)"

section \<open>The display sync\<close>

text \<open>
  The two places of \<open>update_embed\<close> that send a new card, bind it and save the bindings
  (lines 152 to 154 and 156 to 158).
\<close>

definition send_and_bind :: "world \<Rightarrow> string \<Rightarrow> embed \<Rightarrow> world" where
  "send_and_bind w server e =
     (case send (discord w) e of
        (ch, message_id) \<Rightarrow>
          save_embed_ids
            (w\<lparr>discord := ch, embed_tracker := (embed_tracker w)(server \<mapsto> message_id)\<rparr>))"

text \<open>
  \<open>update_embed\<close> (lines 124 to 158). A \<open>NotFound\<close> raised by \<open>fetch_message\<close> or by
  \<open>message.edit\<close> is caught by the one handler; a missing \<open>player_tracker[server]\<close>
  raises \<open>KeyError\<close>.
\<close>

definition update_embed :: "(string set \<Rightarrow> string list) \<Rightarrow> world \<Rightarrow> string \<Rightarrow> error + world" where
  "update_embed iter w0 server =
     (let w = w0\<lparr>sync_calls := Suc (sync_calls w0)\<rparr> in
      case channel_cache w of
        None \<Rightarrow> Inr (logging WARNING (Channel_not_cached server) w)
      | Some cid \<Rightarrow>
          (case player_tracker w server of
             None \<Rightarrow> Inl KeyError
           | Some st \<Rightarrow>
               (let e = make_embed iter server (players st) in
                case embed_tracker w server of
                  Some message_id \<Rightarrow>
                    (case fetch_message (discord w) message_id of
                       Inl err \<Rightarrow>
                         (if err = NotFound
                          then Inr (send_and_bind (logging WARNING (Embed_not_found server) w) server e)
                          else Inl err)
                     | Inr message \<Rightarrow>
                         (case edit (discord w) message e of
                            Inl err \<Rightarrow>
                              (if err = NotFound
                               then Inr (send_and_bind (logging WARNING (Embed_not_found server) w) server e)
                               else Inl err)
                          | Inr ch \<Rightarrow> Inr (logging INFO (Updated_embed server) (w\<lparr>discord := ch\<rparr>))))
                | None \<Rightarrow> Inr (send_and_bind w server e))))"

section \<open>The monitoring loop\<close>

text \<open>
  The body of the loop after a line was read (lines 178 to 195). The test for the phrase
  comes first; the regular expression is searched only in the branch taken.
\<close>

definition add_player :: "world \<Rightarrow> string \<Rightarrow> string \<Rightarrow> error + world" where
  "add_player w server player =
     (case player_tracker w server of
        None \<Rightarrow> Inl KeyError
      | Some st \<Rightarrow>
          Inr (w\<lparr>player_tracker :=
            (player_tracker w)(server \<mapsto> st\<lparr>players := insert player (players st)\<rparr>)\<rparr>))"

definition discard_player :: "world \<Rightarrow> string \<Rightarrow> string \<Rightarrow> error + world" where
  "discard_player w server player =
     (case player_tracker w server of
        None \<Rightarrow> Inl KeyError
      | Some st \<Rightarrow>
          Inr (w\<lparr>player_tracker :=
            (player_tracker w)(server \<mapsto> st\<lparr>players := players st - {player}\<rparr>)\<rparr>))"

definition enter_branch :: "(string set \<Rightarrow> string list) \<Rightarrow> world \<Rightarrow> string \<Rightarrow> string \<Rightarrow> error + world" where
  "enter_branch iter w server line =
     (case search_joined line of
        None \<Rightarrow> Inr w
      | Some g \<Rightarrow>
          (let player = strip g in
           case add_player w server player of
             Inl err \<Rightarrow> Inl err
           | Inr w1 \<Rightarrow>
               (case update_embed iter w1 server of
                  Inl err \<Rightarrow> Inl err
                | Inr w2 \<Rightarrow> Inr (logging INFO (Player_joined player server) w2))))"

definition leave_branch :: "(string set \<Rightarrow> string list) \<Rightarrow> world \<Rightarrow> string \<Rightarrow> string \<Rightarrow> error + world" where
  "leave_branch iter w server line =
     (case search_left line of
        None \<Rightarrow> Inr w
      | Some g \<Rightarrow>
          (let player = strip g in
           case discard_player w server player of
             Inl err \<Rightarrow> Inl err
           | Inr w1 \<Rightarrow>
               (case update_embed iter w1 server of
                  Inl err \<Rightarrow> Inl err
                | Inr w2 \<Rightarrow> Inr (logging INFO (Player_left player server) w2))))"

definition process_line :: "(string set \<Rightarrow> string list) \<Rightarrow> world \<Rightarrow> string \<Rightarrow> string \<Rightarrow> error + world" where
  "process_line iter w0 server line =
     (let w = logging DEBUG (New_log_entry server (strip line)) w0 in
      if str_in ''joined the game'' line then enter_branch iter w server line
      else if str_in ''left the game'' line \<or> str_in ''lost connection'' line
        then leave_branch iter w server line
      else Inr w)"

text \<open>
  The handle on the log file belongs to the library (aiofiles over Python's text-mode
  file object): what \<open>readline\<close> returns depends on the handle's buffer, on its decoding
  and on its translation of line ends, none of which is code of this repository. The
  loop is therefore given the values that the successive \<open>await f.readline()\<close> return, as
  a list: the empty string when the handle has nothing to give, otherwise a line, which
  ends with a line feed unless the handle reached the end of the file inside the line.
  (A read that raises ends the task and is not in the list.)

  What the task does to the file and to the event loop is recorded in order: opening a
  path, seeking to an offset, calling \<open>readline\<close>, sleeping (in milliseconds).
\<close>

datatype io_event = Opened string | Seeked nat | Readline | Slept nat

text \<open>
  The loop \<open>while True\<close> of \<open>monitor_player_activity\<close> (lines 171 to 195). It never
  leaves by itself, so the model runs one iteration for each element of the list of
  \<open>readline\<close> results. The result is the state and the record of operations after these
  iterations, or the exception that ended the task.
\<close>

fun monitor_loop :: "(string set \<Rightarrow> string list) \<Rightarrow> world \<Rightarrow> string \<Rightarrow> io_event list \<Rightarrow> string list \<Rightarrow> error + world \<times> io_event list" where
  "monitor_loop iter w server ops [] = Inr (w, ops)"
| "monitor_loop iter w server ops (line # later) =
     (if line = [] then monitor_loop iter w server (ops @ [Readline, Slept 500]) later
      else (case process_line iter w server line of
              Inl err \<Rightarrow> Inl err
            | Inr w' \<Rightarrow> monitor_loop iter w' server (ops @ [Readline]) later))"

text \<open>\<open>os.path.dirname\<close> on POSIX paths.\<close>

definition dirname :: "string \<Rightarrow> string" where
  "dirname p =
     (let head = rev (dropWhile (\<lambda>c. c \<noteq> CHR ''/'') (rev p)) in
      if head \<noteq> [] \<and> head \<noteq> replicate (length head) (CHR ''/'')
      then rev (dropWhile (\<lambda>c. c = CHR ''/'') (rev head))
      else head)"

text \<open>\<open>os.path.join\<close> on POSIX paths, for two components.\<close>

definition path_join :: "string \<Rightarrow> string \<Rightarrow> string" where
  "path_join a b =
     (if prefix ''/'' b then b
      else if a = [] \<or> last a = CHR ''/'' then a @ b
      else a @ ''/'' @ b)"

text \<open>
  \<open>monitor_player_activity\<close> (lines 161 to 195): the handle is opened once, on
  \<open>latest.log\<close> in the directory of the stored path, and positioned at the stored
  offset; then the loop runs. \<open>file_exists\<close> says whether that file can be opened.
\<close>

definition monitor_player_activity :: "(string set \<Rightarrow> string list) \<Rightarrow> world \<Rightarrow> string \<Rightarrow> bool \<Rightarrow> string list \<Rightarrow> error + world \<times> io_event list" where
  "monitor_player_activity iter w server file_exists reads =
     (case player_tracker w server of
        None \<Rightarrow> Inl KeyError
      | Some st \<Rightarrow>
          (let current_log_file = path_join (dirname (log_file st)) ''latest.log'';
               w1 = logging INFO (Starting_log_monitor server) w in
           if \<not> file_exists then Inl FileNotFoundError
           else monitor_loop iter w1 server
                  [Opened current_log_file, Seeked (position st)] reads))"

section \<open>Start-up\<close>

text \<open>
  One round of the loop of \<open>initialize_players\<close> (lines 93 to 119) up to the creation of
  the monitoring task: \<open>running\<close> is the result of the \<open>screen -list\<close> test;
  \<open>log_end\<close> is \<open>None\<close> when the server's \<open>latest.log\<close> does not exist, and otherwise
  the value \<open>f.tell()\<close> returns after \<open>f.seek(0, os.SEEK_END)\<close>, the offset of the end
  of the file as the handle counts it. \<open>server_dir\<close> is the configured \<open>SERVER_DIR\<close>.
\<close>

definition initialize_server :: "(string set \<Rightarrow> string list) \<Rightarrow> string \<Rightarrow> world \<Rightarrow> string \<Rightarrow> bool \<Rightarrow> nat option \<Rightarrow> error + world" where
  "initialize_server iter server_dir w server running log_end =
     (if \<not> running then Inr w
      else (case log_end of
        None \<Rightarrow> Inr (logging WARNING (No_log_file server) w)
      | Some pos \<Rightarrow>
          (let log_path = path_join (path_join (path_join server_dir server) ''logs'') ''latest.log'';
               w1 = w\<lparr>player_tracker := (player_tracker w)(server \<mapsto>
                      \<lparr>players = {}, log_file = log_path, position = pos\<rparr>)\<rparr>
           in case update_embed iter w1 server of
                Inl err \<Rightarrow> Inl err
              | Inr w2 \<Rightarrow> Inr (logging INFO (Initialized server pos) w2))))"

text \<open>
  The state of a freshly started process: the globals as the module sets them, and what
  is outside the process (the bindings file and the channel) as found.
\<close>

definition fresh_process :: "(string \<rightharpoonup> nat) option \<Rightarrow> channel \<Rightarrow> world" where
  "fresh_process file ch =
     \<lparr>embed_tracker = Map.empty, player_tracker = Map.empty, channel_cache = None,
      embed_ids_file = file, discord = ch, activity_log = [], sync_calls = 0\<rparr>"

text \<open>
  \<open>main\<close> and \<open>on_ready\<close> (lines 70 to 85 and 218 to 221) for one server: the bindings
  are loaded, the channel is cached when \<open>bot.get_channel\<close> finds it, and the server
  is initialised.
\<close>

definition startup :: "(string set \<Rightarrow> string list) \<Rightarrow> string \<Rightarrow> (string \<rightharpoonup> nat) option \<Rightarrow> channel \<Rightarrow> nat option \<Rightarrow> string \<Rightarrow> bool \<Rightarrow> nat option \<Rightarrow> error + world" where
  "startup iter server_dir file ch found server running log_end =
     (let w1 = logging INFO Bot_connected (load_embed_ids (fresh_process file ch));
          w2 = w1\<lparr>channel_cache := found\<rparr>;
          w3 = (case found of
                  Some c \<Rightarrow> logging INFO Channel_cached w2
                | None \<Rightarrow> logging WARNING Channel_not_found w2)
      in initialize_server iter server_dir w3 server running log_end)"

section \<open>Which branch a line takes\<close>

text \<open>
  What lines 181 to 195 do with a line, read off \<open>process_line\<close> as a value: the enter
  branch with the name it extracts, the leave branch with the name it extracts, or
  nothing. The test for the phrase comes first, as in the code, and the names are those
  of the code's regular expressions.
\<close>

datatype event = Enter string | Leave string | Ignore

definition classify :: "string \<Rightarrow> event" where
  "classify line =
     (if str_in ''joined the game'' line then
        (case search_joined line of Some g \<Rightarrow> Enter (strip g) | None \<Rightarrow> Ignore)
      else if str_in ''left the game'' line \<or> str_in ''lost connection'' line then
        (case search_left line of Some g \<Rightarrow> Leave (strip g) | None \<Rightarrow> Ignore)
      else Ignore)"

text \<open>The change of the presence set that goes with it: add, discard, or none.\<close>

definition replay :: "string set \<Rightarrow> string \<Rightarrow> string set" where
  "replay S line =
     (case classify line of Enter p \<Rightarrow> insert p S | Leave p \<Rightarrow> S - {p} | Ignore \<Rightarrow> S)"

section \<open>The reconciliation as the specification words it\<close>

text \<open>
  The definitions of this section follow section 4.3 of the specification and use none
  of the functions above that model the code's regular expressions and
  \<open>str.strip\<close>.

  Trimming: the leading and the trailing white space are removed.
\<close>

definition spec_trim :: "string \<Rightarrow> string" where
  "spec_trim s =
     (let a = length (takeWhile is_space s); b = length (takeWhile is_space (rev s))
      in take (length s - a - b) (drop a s))"

text \<open>
  The pattern \<open><separator> <name> <phrase>\<close>: in \<open>line\<close>, the separator token \<open>sep\<close>
  stands at position \<open>i\<close>, followed by a blank, a name of \<open>n\<close> characters within one
  line, a blank, and one of the phrases \<open>kws\<close>.
\<close>

definition spec_match :: "string \<Rightarrow> string list \<Rightarrow> string \<Rightarrow> nat \<Rightarrow> nat \<Rightarrow> bool" where
  "spec_match sep kws line i n =
     (prefix (sep @ '' '') (drop i line) \<and> 0 < n
      \<and> nl \<notin> set (take n (drop (i + length sep + 1) line))
      \<and> (\<exists>kw \<in> set kws. prefix ('' '' @ kw) (drop (i + length sep + 1 + n) line)))"

text \<open>The lengths of the names that the pattern admits after the separator at \<open>i\<close>.\<close>

definition spec_names :: "string \<Rightarrow> string list \<Rightarrow> string \<Rightarrow> nat \<Rightarrow> nat list" where
  "spec_names sep kws line i = [n \<leftarrow> [1..<length line]. spec_match sep kws line i n]"

text \<open>
  The name extraction rule: the text between the line's separator token and the trailing
  phrase. The separator is the first one in the line after which the pattern matches;
  the phrase is the last one that matches after it, so the name is the longest.
\<close>

definition spec_extract :: "string \<Rightarrow> string list \<Rightarrow> string \<Rightarrow> string option" where
  "spec_extract sep kws line =
     (case [i \<leftarrow> [0..<length line]. spec_names sep kws line i \<noteq> []] of
        [] \<Rightarrow> None
      | i # _ \<Rightarrow>
          Some (take (last (spec_names sep kws line i)) (drop (i + length sep + 1) line)))"

text \<open>
  The enter pattern and the leave pattern, with the trimmed name. The separator token
  of the code's patterns is the colon.
\<close>

definition spec_enter_name :: "string \<Rightarrow> string option" where
  "spec_enter_name line = map_option spec_trim (spec_extract '':'' [''joined the game''] line)"

definition spec_leave_name :: "string \<Rightarrow> string option" where
  "spec_leave_name line =
     map_option spec_trim (spec_extract '':'' [''left the game'', ''lost connection''] line)"

text \<open>
  The classification of section 4.3: enter when the enter pattern matches, leave when the
  leave pattern matches, ignore everything else; and the replay of a line on a presence
  set: enter adds, leave discards.
\<close>

definition spec_classify :: "string \<Rightarrow> event" where
  "spec_classify line =
     (case spec_enter_name line of
        Some p \<Rightarrow> Enter p
      | None \<Rightarrow> (case spec_leave_name line of Some p \<Rightarrow> Leave p | None \<Rightarrow> Ignore))"

definition spec_replay :: "string set \<Rightarrow> string \<Rightarrow> string set" where
  "spec_replay S line =
     (case spec_classify line of Enter p \<Rightarrow> insert p S | Leave p \<Rightarrow> S - {p} | Ignore \<Rightarrow> S)"

text \<open>
  The classification with the enter phrase taking precedence: as the one of section 4.3,
  but a line that holds the enter phrase is never a leave line.
\<close>

definition precedence_classify :: "string \<Rightarrow> event" where
  "precedence_classify line =
     (case spec_enter_name line of
        Some p \<Rightarrow> Enter p
      | None \<Rightarrow>
          (if sublist ''joined the game'' line then Ignore
           else (case spec_leave_name line of Some p \<Rightarrow> Leave p | None \<Rightarrow> Ignore)))"

definition precedence_replay :: "string set \<Rightarrow> string \<Rightarrow> string set" where
  "precedence_replay S line =
     (case precedence_classify line of
        Enter p \<Rightarrow> insert p S | Leave p \<Rightarrow> S - {p} | Ignore \<Rightarrow> S)"

section \<open>Runs and observations used in the examples\<close>

text \<open>Two invocations of \<open>update_embed\<close> in succession, with nothing in between.\<close>

definition sync_twice :: "(string set \<Rightarrow> string list) \<Rightarrow> world \<Rightarrow> string \<Rightarrow> error + world" where
  "sync_twice iter w server =
     (case update_embed iter w server of Inl err \<Rightarrow> Inl err | Inr w1 \<Rightarrow> update_embed iter w1 server)"

text \<open>What can be seen of a result: a server's binding, a card of the channel.\<close>

definition result_binding :: "error + world \<Rightarrow> string \<Rightarrow> nat option" where
  "result_binding r server = (case r of Inl err \<Rightarrow> None | Inr w \<Rightarrow> embed_tracker w server)"

definition result_card :: "error + world \<Rightarrow> nat \<Rightarrow> embed option" where
  "result_card r message_id = (case r of Inl err \<Rightarrow> None | Inr w \<Rightarrow> msgs (discord w) message_id)"

text \<open>
  A state with the channel cached and one monitored server, \<open>survival\<close>, whose presence
  set, the bindings and the channel are given.
\<close>

definition example_world :: "string set \<Rightarrow> (string \<rightharpoonup> nat) \<Rightarrow> channel \<Rightarrow> world" where
  "example_world ps bindings ch =
     \<lparr>embed_tracker = bindings,
      player_tracker = [''survival'' \<mapsto>
        \<lparr>players = ps, log_file = ''/srv/survival/logs/latest.log'', position = 0\<rparr>],
      channel_cache = Some 1, embed_ids_file = Some bindings, discord = ch,
      activity_log = [], sync_calls = 0\<rparr>"

text \<open>What can be seen of a result: a server's presence set, the sync counter, the log.\<close>

definition result_players :: "error + world \<Rightarrow> string \<Rightarrow> string set option" where
  "result_players r server =
     (case r of Inl err \<Rightarrow> None | Inr w \<Rightarrow> map_option players (player_tracker w server))"

definition result_sync_calls :: "error + world \<Rightarrow> nat option" where
  "result_sync_calls r = (case r of Inl err \<Rightarrow> None | Inr w \<Rightarrow> Some (sync_calls w))"

definition result_log :: "error + world \<Rightarrow> (level \<times> log_event) list option" where
  "result_log r = (case r of Inl err \<Rightarrow> None | Inr w \<Rightarrow> Some (activity_log w))"

text \<open>A line as the game server writes it: time stamp, thread and level, separator, message.\<close>

definition log_line :: "string \<Rightarrow> string" where
  "log_line msg = ''[12:00:01] [Server thread/INFO]: '' @ msg @ [nl]"

text \<open>What can be seen of a run of the loop: the record of operations, the state.\<close>

definition loop_ops :: "error + world \<times> io_event list \<Rightarrow> io_event list option" where
  "loop_ops r = (case r of Inl err \<Rightarrow> None | Inr (w, ops) \<Rightarrow> Some ops)"

definition loop_world :: "error + world \<times> io_event list \<Rightarrow> error + world" where
  "loop_world r = (case r of Inl err \<Rightarrow> Inl err | Inr (w, ops) \<Rightarrow> Inr w)"

definition result_position :: "error + world \<Rightarrow> string \<Rightarrow> nat option" where
  "result_position r server =
     (case r of Inl err \<Rightarrow> None | Inr w \<Rightarrow> map_option position (player_tracker w server))"

text \<open>Whether a record of the log states a file offset.\<close>

definition records_offset :: "level \<times> log_event \<Rightarrow> bool" where
  "records_offset e = (case snd e of Initialized server pos \<Rightarrow> True | _ \<Rightarrow> False)"

text \<open>
  A session as \<open>readline\<close> returns it: an enter, the same enter again, a leave of an actor
  who is not present, nothing to read, an enter, and a leave of an actor who is present.
\<close>

definition session :: "string list" where
  "session = [log_line ''Steve joined the game'', log_line ''Steve joined the game'',
     log_line ''Alex left the game'', [], log_line ''Alex joined the game'',
     log_line ''Steve lost connection: Disconnected'']"

text \<open>
  A line without the prefix of the game server, in which the enter phrase stands before
  the separator and a leave follows.
\<close>

definition mixed_line :: string where
  "mixed_line = ''xx joined the game: Alex left the game'' @ [nl]"

text \<open>
  A line whose end is not written yet, as \<open>readline\<close> returns it at the end of the file;
  the rest of the line; and the line once it is complete.
\<close>

definition partial_line :: string where
  "partial_line = ''[12:00:01] [Server thread/INFO]: Steve joined the game''"

definition rest_of_line :: string where
  "rest_of_line = '' and Alex joined the game'' @ [nl]"

definition completed_line :: string where
  "completed_line = partial_line @ rest_of_line"

text \<open>The example state with the stored offset of \<open>survival\<close> set to \<open>pos\<close>.\<close>

definition example_world_at :: "nat \<Rightarrow> world" where
  "example_world_at pos =
     (example_world {} Map.empty \<lparr>msgs = Map.empty, next_id = 0\<rparr>)
       \<lparr>player_tracker := [''survival'' \<mapsto>
          \<lparr>players = {}, log_file = ''/srv/survival/logs/latest.log'', position = pos\<rparr>]\<rparr>"

text \<open>
  The log of the bot grew from \<open>w\<close> to \<open>w'\<close> without a record that states an offset.
\<close>

definition log_without_offsets :: "world \<Rightarrow> world \<Rightarrow> bool" where
  "log_without_offsets w w' =
     (prefix (activity_log w) (activity_log w')
      \<and> filter records_offset (drop (length (activity_log w)) (activity_log w')) = [])"

section \<open>What a display sync leaves alone\<close>

lemma update_embed_tracker:
  "update_embed iter w server = Inr w' \<Longrightarrow> player_tracker w' = player_tracker w"
  by (auto simp: update_embed_def Let_def send_and_bind_def save_embed_ids_def logging_def
      send_def split: option.splits sum.splits if_splits)

lemma update_embed_sync_calls:
  "update_embed iter w server = Inr w' \<Longrightarrow> sync_calls w' = Suc (sync_calls w)"
  by (auto simp: update_embed_def Let_def send_and_bind_def save_embed_ids_def logging_def
      send_def split: option.splits sum.splits if_splits)

text \<open>
  Claim C10. While the display channel is not cached, \<open>update_embed\<close> returns early for
  any server, whether tracked or not: it raises nothing, no card is sent or edited (the
  channel is as before), the bindings and the bindings file are as before, and so is
  every server's entry with its presence set and offset. The only trace is one warning
  in the log.
\<close>

theorem update_embed_channel_not_cached:
  assumes "channel_cache w = None"
  shows "\<exists>w'. update_embed iter w server = Inr w'
           \<and> discord w' = discord w
           \<and> embed_tracker w' = embed_tracker w
           \<and> embed_ids_file w' = embed_ids_file w
           \<and> player_tracker w' = player_tracker w
           \<and> channel_cache w' = None
           \<and> activity_log w' = activity_log w @ [(WARNING, Channel_not_cached server)]"
  using assms by (simp add: update_embed_def Let_def logging_def)

theorem update_embed_channel_not_cached_witness:
  "channel_cache (fresh_process None \<lparr>msgs = Map.empty, next_id = 0\<rparr>) = None
   \<and> (\<exists>w'. update_embed sorted_list_of_set
              (fresh_process None \<lparr>msgs = Map.empty, next_id = 0\<rparr>) ''survival'' = Inr w'
         \<and> discord w' = \<lparr>msgs = Map.empty, next_id = 0\<rparr>
         \<and> embed_ids_file w' = None
         \<and> activity_log w' = [(WARNING, Channel_not_cached ''survival'')])"
  using update_embed_channel_not_cached
    [of "fresh_process None \<lparr>msgs = Map.empty, next_id = 0\<rparr>" sorted_list_of_set "''survival''"]
  by (auto simp: fresh_process_def)

section \<open>Display sync: the bound card\<close>

text \<open>
  Claim C7. When the bound card is reported not found, \<open>update_embed\<close> sends a new card
  showing the server's current embed, replaces the server's entry of \<open>embed_tracker\<close> by
  the identifier of the new card (a dictionary: one binding for the server, the other
  servers' bindings untouched), and writes the updated dictionary to the bindings file.
  It logs one warning and the save.
\<close>

theorem update_embed_not_found:
  assumes "channel_cache w = Some cid" and "player_tracker w server = Some st"
    and "embed_tracker w server = Some message_id" and "msgs (discord w) message_id = None"
  shows "\<exists>w'. update_embed iter w server = Inr w'
           \<and> msgs (discord w') =
               (msgs (discord w))(next_id (discord w) \<mapsto> make_embed iter server (players st))
           \<and> next_id (discord w') = Suc (next_id (discord w))
           \<and> embed_tracker w' = (embed_tracker w)(server \<mapsto> next_id (discord w))
           \<and> embed_ids_file w' = Some (embed_tracker w')
           \<and> activity_log w' = activity_log w @
               [(WARNING, Embed_not_found server), (INFO, Embed_ids_saved)]"
  using assms
  by (simp add: update_embed_def Let_def fetch_message_def send_and_bind_def send_def
      save_embed_ids_def logging_def)

theorem update_embed_not_found_witness:
  "\<exists>w'. update_embed sorted_list_of_set
       (example_world {} [''survival'' \<mapsto> 5] \<lparr>msgs = Map.empty, next_id = 9\<rparr>) ''survival'' = Inr w'
     \<and> msgs (discord w') 9 = Some (make_embed sorted_list_of_set ''survival'' {})
     \<and> embed_tracker w' ''survival'' = Some 9
     \<and> map_option (\<lambda>m. m ''survival'') (embed_ids_file w') = Some (Some 9)"
  using update_embed_not_found
    [of "example_world {} [''survival'' \<mapsto> 5] \<lparr>msgs = Map.empty, next_id = 9\<rparr>" 1 "''survival''"
       "\<lparr>players = {}, log_file = ''/srv/survival/logs/latest.log'', position = 0\<rparr>" 5
       sorted_list_of_set]
  by (auto simp: example_world_def)

text \<open>
  Claim C6, as stated, fails on a binding whose card was deleted: the first of two
  syncs sends a new card and changes the binding (here from 5 to 9, the new card), and
  no edit reaches the card that was bound.
\<close>

theorem sync_twice_stale_binding:
  "result_binding (Inr (example_world {} [''survival'' \<mapsto> 5] \<lparr>msgs = Map.empty, next_id = 9\<rparr>))
       ''survival'' = Some 5
   \<and> result_binding (sync_twice sorted_list_of_set
        (example_world {} [''survival'' \<mapsto> 5] \<lparr>msgs = Map.empty, next_id = 9\<rparr>) ''survival'')
       ''survival'' = Some 9
   \<and> result_card (sync_twice sorted_list_of_set
        (example_world {} [''survival'' \<mapsto> 5] \<lparr>msgs = Map.empty, next_id = 9\<rparr>) ''survival'') 5
       = None
   \<and> result_card (sync_twice sorted_list_of_set
        (example_world {} [''survival'' \<mapsto> 5] \<lparr>msgs = Map.empty, next_id = 9\<rparr>) ''survival'') 9
       = Some (make_embed sorted_list_of_set ''survival'' {})"
  by (simp add: sync_twice_def result_binding_def result_card_def example_world_def
      update_embed_def Let_def fetch_message_def edit_def send_and_bind_def send_def
      save_embed_ids_def logging_def)

text \<open>
  Claim C6, amended. With the channel cached, the server monitored, and its binding
  pointing to a card that exists on the channel, two syncs in succession with the
  presence set unchanged both edit the bound card: the first sets it to the server's
  embed, the second leaves the channel exactly as the first left it. No card is
  created (the channel holds the same identifiers and would give the same next
  identifier), and the bindings and the bindings file are unchanged.
\<close>

theorem sync_twice_bound_card:
  assumes "channel_cache w = Some cid" and "player_tracker w server = Some st"
    and "embed_tracker w server = Some message_id" and "msgs (discord w) message_id = Some old"
  shows "\<exists>w1 w2. update_embed iter w server = Inr w1 \<and> update_embed iter w1 server = Inr w2
           \<and> msgs (discord w1) =
               (msgs (discord w))(message_id \<mapsto> make_embed iter server (players st))
           \<and> discord w2 = discord w1
           \<and> dom (msgs (discord w2)) = dom (msgs (discord w))
           \<and> next_id (discord w2) = next_id (discord w)
           \<and> embed_tracker w2 = embed_tracker w
           \<and> embed_ids_file w2 = embed_ids_file w
           \<and> player_tracker w2 = player_tracker w
           \<and> activity_log w2 = activity_log w @
               [(INFO, Updated_embed server), (INFO, Updated_embed server)]"
  using assms
  by (auto simp: update_embed_def Let_def fetch_message_def edit_def logging_def)

theorem sync_twice_bound_card_witness:
  "\<exists>w1 w2. update_embed sorted_list_of_set
        (example_world {} [''survival'' \<mapsto> 5]
           \<lparr>msgs = [5 \<mapsto> make_embed sorted_list_of_set ''survival'' {''Steve''}], next_id = 9\<rparr>)
        ''survival'' = Inr w1
     \<and> update_embed sorted_list_of_set w1 ''survival'' = Inr w2
     \<and> msgs (discord w1) 5 = Some (make_embed sorted_list_of_set ''survival'' {})
     \<and> discord w2 = discord w1
     \<and> dom (msgs (discord w2)) = {5}
     \<and> embed_tracker w2 ''survival'' = Some 5"
  using sync_twice_bound_card
    [of "example_world {} [''survival'' \<mapsto> 5]
           \<lparr>msgs = [5 \<mapsto> make_embed sorted_list_of_set ''survival'' {''Steve''}], next_id = 9\<rparr>"
       1 "''survival''"
       "\<lparr>players = {}, log_file = ''/srv/survival/logs/latest.log'', position = 0\<rparr>" 5
       "make_embed sorted_list_of_set ''survival'' {''Steve''}" sorted_list_of_set]
  by (auto simp: example_world_def)

section \<open>One line through the reconciler\<close>

lemma update_embed_total:
  "player_tracker w server = Some st \<Longrightarrow> \<exists>w'. update_embed iter w server = Inr w'"
  by (auto simp: update_embed_def Let_def fetch_message_def edit_def
      split: option.splits sum.splits)

lemma update_embed_effect:
  assumes "player_tracker w server = Some st"
  shows "\<exists>w'. update_embed iter w server = Inr w' \<and> player_tracker w' = player_tracker w
           \<and> sync_calls w' = Suc (sync_calls w)"
  using update_embed_total [OF assms, of iter] update_embed_tracker update_embed_sync_calls
  by blast

lemma process_line_effect:
  assumes "player_tracker w server = Some st"
  shows "\<exists>w'. process_line iter w server line = Inr w'
           \<and> player_tracker w' =
               (player_tracker w)(server \<mapsto> st\<lparr>players := replay (players st) line\<rparr>)
           \<and> sync_calls w' = sync_calls w + (if classify line = Ignore then 0 else 1)"
proof (cases "classify line")
  case (Enter p)
  let ?w0 = "logging DEBUG (New_log_entry server (strip line)) w"
  let ?w1 = "?w0\<lparr>player_tracker :=
    (player_tracker ?w0)(server \<mapsto> st\<lparr>players := insert p (players st)\<rparr>)\<rparr>"
  from Enter obtain g where g: "str_in ''joined the game'' line"
      "search_joined line = Some g" "p = strip g"
    by (auto simp: classify_def split: if_splits option.splits)
  have "player_tracker ?w1 server = Some (st\<lparr>players := insert p (players st)\<rparr>)" by simp
  from update_embed_effect [OF this, of iter] obtain w2 where
    w2: "update_embed iter ?w1 server = Inr w2" "player_tracker w2 = player_tracker ?w1"
        "sync_calls w2 = Suc (sync_calls ?w1)" by blast
  show ?thesis using g w2 assms Enter
    by (simp add: process_line_def enter_branch_def add_player_def Let_def replay_def
        logging_def)
next
  case (Leave p)
  let ?w0 = "logging DEBUG (New_log_entry server (strip line)) w"
  let ?w1 = "?w0\<lparr>player_tracker :=
    (player_tracker ?w0)(server \<mapsto> st\<lparr>players := players st - {p}\<rparr>)\<rparr>"
  from Leave obtain g where g: "\<not> str_in ''joined the game'' line"
      "str_in ''left the game'' line \<or> str_in ''lost connection'' line"
      "search_left line = Some g" "p = strip g"
    by (auto simp: classify_def split: if_splits option.splits)
  have "player_tracker ?w1 server = Some (st\<lparr>players := players st - {p}\<rparr>)" by simp
  from update_embed_effect [OF this, of iter] obtain w2 where
    w2: "update_embed iter ?w1 server = Inr w2" "player_tracker w2 = player_tracker ?w1"
        "sync_calls w2 = Suc (sync_calls ?w1)" by blast
  show ?thesis using g w2 assms Leave
    by (auto simp add: process_line_def leave_branch_def discard_player_def Let_def
        replay_def logging_def)
next
  case Ignore
  have "(player_tracker w)(server \<mapsto> st) = player_tracker w"
    using assms by (simp add: fun_upd_idem)
  then show ?thesis using Ignore assms
    by (auto simp: process_line_def enter_branch_def leave_branch_def Let_def replay_def
        logging_def classify_def split: if_splits option.splits)
qed

text \<open>
  Claim C5, as stated, fails on an enter line for an actor who is already present: the
  presence set is unchanged, yet \<open>update_embed\<close> is invoked once.
\<close>

theorem duplicate_enter_syncs:
  "result_players (Inr (example_world {''Steve''} Map.empty \<lparr>msgs = Map.empty, next_id = 0\<rparr>))
       ''survival'' = Some {''Steve''}
   \<and> result_sync_calls (Inr (example_world {''Steve''} Map.empty \<lparr>msgs = Map.empty, next_id = 0\<rparr>))
       = Some 0
   \<and> result_players (process_line sorted_list_of_set
        (example_world {''Steve''} Map.empty \<lparr>msgs = Map.empty, next_id = 0\<rparr>) ''survival''
        (log_line ''Steve joined the game'')) ''survival'' = Some {''Steve''}
   \<and> result_sync_calls (process_line sorted_list_of_set
        (example_world {''Steve''} Map.empty \<lparr>msgs = Map.empty, next_id = 0\<rparr>) ''survival''
        (log_line ''Steve joined the game'')) = Some 1"
  by code_simp

text \<open>
  Claim C5, amended. For a monitored server, processing a line invokes the display sync
  exactly once when the line is an enter or a leave line with an extractable name,
  whether or not the presence set changes by it (an enter of a present actor and a
  leave of an absent actor sync too), and not at all for any other line. The presence
  set becomes the replay of the line on the old set.
\<close>


theorem process_line_sync_count:
  assumes "player_tracker w server = Some st"
  shows "\<exists>w' st'. process_line iter w server line = Inr w'
           \<and> player_tracker w' server = Some st'
           \<and> players st' = replay (players st) line
           \<and> sync_calls w' = sync_calls w + (if classify line = Ignore then 0 else 1)"
  using process_line_effect [OF assms, of iter line] by auto

theorem process_line_sync_count_witness:
  "\<exists>w' st'. process_line sorted_list_of_set
       (example_world {''Steve''} Map.empty \<lparr>msgs = Map.empty, next_id = 0\<rparr>) ''survival''
       (log_line ''Steve joined the game'') = Inr w'
     \<and> player_tracker w' ''survival'' = Some st'
     \<and> players st' = {''Steve''}
     \<and> sync_calls w' = 1"
proof -
  have c: "classify (log_line ''Steve joined the game'') = Enter ''Steve''" by code_simp
  have t: "player_tracker (example_world {''Steve''} Map.empty \<lparr>msgs = Map.empty, next_id = 0\<rparr>)
      ''survival'' = Some \<lparr>players = {''Steve''}, log_file = ''/srv/survival/logs/latest.log'', position = 0\<rparr>"
    by (simp add: example_world_def)
  show ?thesis
    using process_line_sync_count [OF t, of sorted_list_of_set "log_line ''Steve joined the game''"] c
    by (auto simp: replay_def example_world_def)
qed

text \<open>
  Claim C8, as stated, fails on the line of the specification's own scenario, which
  holds the enter phrase but no separator: the line is skipped, but nothing is logged
  at warning level; the log gains only the debug record every line gets.
\<close>

theorem unextractable_line_not_warned:
  "result_log (process_line sorted_list_of_set
        (example_world {} Map.empty \<lparr>msgs = Map.empty, next_id = 0\<rparr>) ''survival''
        (''12:00:01 [Server] PlayerA joined the game'' @ [nl]))
     = Some [(DEBUG, New_log_entry ''survival'' ''12:00:01 [Server] PlayerA joined the game'')]"
  by code_simp

text \<open>
  Claim C8, amended. A line that holds the enter phrase, or else a leave phrase, and in
  which the branch's regular expression finds no match is skipped without a warning:
  processing it raises nothing, logs only the debug record every line gets, and leaves
  every presence set, the sync counter, the channel, the bindings and the bindings file
  unchanged, for a monitored server or not.
\<close>


theorem process_line_unextractable:
  assumes "(str_in ''joined the game'' line \<and> search_joined line = None)
     \<or> (\<not> str_in ''joined the game'' line
          \<and> (str_in ''left the game'' line \<or> str_in ''lost connection'' line)
          \<and> search_left line = None)"
  shows "\<exists>w'. process_line iter w server line = Inr w'
           \<and> activity_log w' = activity_log w @ [(DEBUG, New_log_entry server (strip line))]
           \<and> player_tracker w' = player_tracker w
           \<and> sync_calls w' = sync_calls w
           \<and> discord w' = discord w
           \<and> embed_tracker w' = embed_tracker w
           \<and> embed_ids_file w' = embed_ids_file w"
  using assms
  by (auto simp: process_line_def enter_branch_def leave_branch_def Let_def logging_def)

theorem process_line_unextractable_witness:
  "str_in ''joined the game'' (''12:00:01 [Server] PlayerA joined the game'' @ [nl])
   \<and> search_joined (''12:00:01 [Server] PlayerA joined the game'' @ [nl]) = None
   \<and> (\<exists>w'. process_line sorted_list_of_set
          (example_world {} Map.empty \<lparr>msgs = Map.empty, next_id = 0\<rparr>) ''survival''
          (''12:00:01 [Server] PlayerA joined the game'' @ [nl]) = Inr w'
        \<and> activity_log w' =
            [(DEBUG, New_log_entry ''survival'' ''12:00:01 [Server] PlayerA joined the game'')]
        \<and> sync_calls w' = 0)"
proof -
  have h: "str_in ''joined the game'' (''12:00:01 [Server] PlayerA joined the game'' @ [nl])
     \<and> search_joined (''12:00:01 [Server] PlayerA joined the game'' @ [nl]) = None"
    by code_simp
  have s: "strip (''12:00:01 [Server] PlayerA joined the game'' @ [nl])
     = ''12:00:01 [Server] PlayerA joined the game''" by code_simp
  show ?thesis
    using h s process_line_unextractable [of "''12:00:01 [Server] PlayerA joined the game'' @ [nl]"
      sorted_list_of_set "example_world {} Map.empty \<lparr>msgs = Map.empty, next_id = 0\<rparr>" "''survival''"]
    by (auto simp: example_world_def)
qed

text \<open>
  Claim C9. For a monitored server, processing one line performs at most one mutation
  of the presence set: the set is unchanged, or one name is added, or one name is
  discarded. When the line holds the enter phrase, whatever else it holds, the enter
  branch alone runs: the result is that of the enter branch, and no name is discarded.
\<close>


theorem enter_takes_precedence:
  assumes "player_tracker w server = Some st"
  shows "\<exists>w' st'. process_line iter w server line = Inr w'
           \<and> player_tracker w' server = Some st'
           \<and> (players st' = players st \<or> (\<exists>p. players st' = insert p (players st))
                \<or> (\<exists>p. players st' = players st - {p}))
           \<and> (str_in ''joined the game'' line \<longrightarrow>
                process_line iter w server line =
                  enter_branch iter (logging DEBUG (New_log_entry server (strip line)) w) server line
                \<and> players st \<subseteq> players st')"
proof -
  from process_line_effect [OF assms, of iter line] obtain w' where
    w': "process_line iter w server line = Inr w'"
        "player_tracker w' = (player_tracker w)(server \<mapsto> st\<lparr>players := replay (players st) line\<rparr>)"
    by blast
  have a: "replay (players st) line = players st
      \<or> (\<exists>p. replay (players st) line = insert p (players st))
      \<or> (\<exists>p. replay (players st) line = players st - {p})"
    by (auto simp: replay_def split: event.splits)
  have b: "str_in ''joined the game'' line \<Longrightarrow> players st \<subseteq> replay (players st) line"
    by (auto simp: replay_def classify_def split: event.splits option.splits)
  have c: "str_in ''joined the game'' line \<Longrightarrow> process_line iter w server line =
      enter_branch iter (logging DEBUG (New_log_entry server (strip line)) w) server line"
    by (simp add: process_line_def Let_def)
  show ?thesis using w' a b c by auto
qed

theorem enter_takes_precedence_witness:
  "str_in ''joined the game'' (log_line ''Steve joined the game after Alex left the game'')
   \<and> str_in ''left the game'' (log_line ''Steve joined the game after Alex left the game'')
   \<and> (\<exists>w' st'. process_line sorted_list_of_set
          (example_world {''Alex''} Map.empty \<lparr>msgs = Map.empty, next_id = 0\<rparr>) ''survival''
          (log_line ''Steve joined the game after Alex left the game'') = Inr w'
        \<and> player_tracker w' ''survival'' = Some st'
        \<and> ''Alex'' \<in> players st')"
proof -
  have h: "str_in ''joined the game'' (log_line ''Steve joined the game after Alex left the game'')
     \<and> str_in ''left the game'' (log_line ''Steve joined the game after Alex left the game'')"
    by code_simp
  have t: "player_tracker (example_world {''Alex''} Map.empty \<lparr>msgs = Map.empty, next_id = 0\<rparr>)
      ''survival'' = Some \<lparr>players = {''Alex''}, log_file = ''/srv/survival/logs/latest.log'', position = 0\<rparr>"
    by (simp add: example_world_def)
  show ?thesis
    using h enter_takes_precedence [OF t, of sorted_list_of_set
       "log_line ''Steve joined the game after Alex left the game''"]
    by auto
qed

section \<open>The code's patterns against the specification's\<close>

text \<open>
  The code's substring test, its \<open>strip\<close> and its two regular expressions compute what
  the definitions that follow the specification say: containment, trimming, and the
  name between the first separator that admits a match and the trailing phrase.
\<close>


lemma str_in_sublist: "str_in sub line = sublist sub line"
  by (induction line) (simp_all add: sublist_Cons_right)

lemma strip_spec_trim: "strip s = spec_trim s"
proof -
  let ?a = "length (takeWhile is_space s)"
  let ?d = "dropWhile is_space s"
  have d: "?d = drop ?a s" by (simp add: dropWhile_eq_drop)
  have s: "s = take ?a s @ ?d" by (simp add: d)
  have strip: "strip s = take (length ?d - length (takeWhile is_space (rev ?d))) ?d"
    unfolding strip_def
    by (simp only: dropWhile_eq_drop [of is_space "rev ?d"] rev_drop rev_rev_ident length_rev)
  show ?thesis
  proof (cases "?d = []")
    case True
    have "strip s = []" unfolding strip True by simp
    moreover have "spec_trim s = []" unfolding spec_trim_def Let_def d [symmetric] True by simp
    ultimately show ?thesis by simp
  next
    case False
    then have "\<not> is_space (hd ?d)" by (rule hd_dropWhile)
    moreover have "hd ?d \<in> set (rev ?d)" using False by simp
    ultimately have "takeWhile is_space (rev ?d @ rev (take ?a s)) = takeWhile is_space (rev ?d)"
      by (rule takeWhile_append1 [rotated])
    moreover have "rev s = rev ?d @ rev (take ?a s)"
      by (metis rev_append s)
    ultimately have b: "takeWhile is_space (rev s) = takeWhile is_space (rev ?d)" by simp
    have "length ?d = length s - ?a" by (simp add: d)
    with strip b d show ?thesis by (simp add: spec_trim_def Let_def)
  qed
qed

lemma find_rev_filter:
  "find P (rev xs) = (if filter P xs = [] then None else Some (last (filter P xs)))"
  by (induction xs rule: rev_induct) auto

lemma filter_upt_cut:
  assumes "\<And>n. P n \<Longrightarrow> n < c" and "c \<le> a"
  shows "filter P [k..<a] = filter P [k..<c]"
proof (cases "k \<le> c")
  case True
  with assms(2) have "[k..<a] = [k..<c] @ [c..<a]"
    by (metis le_add_diff_inverse upt_add_eq_append)
  moreover have "filter P [c..<a] = []"
    by (auto simp: filter_empty_conv dest: assms(1))
  ultimately show ?thesis by simp
next
  case False
  then have "filter P [k..<a] = []" by (auto simp: filter_empty_conv dest: assms(1))
  with False show ?thesis by simp
qed

lemma filter_upt_bound:
  assumes "\<And>n. P n \<Longrightarrow> n < a \<and> n < b"
  shows "filter P [k..<a] = filter P [k..<b]"
proof -
  have "filter P [k..<a] = filter P [k..<min a b]"
    by (rule filter_upt_cut) (use assms in auto)
  moreover have "filter P [k..<b] = filter P [k..<min a b]"
    by (rule filter_upt_cut) (use assms in auto)
  ultimately show ?thesis by simp
qed

lemma take_no_nl:
  "n \<le> length rest \<Longrightarrow>
     (nl \<notin> set (take n rest)) = (n \<le> length (takeWhile (\<lambda>c. c \<noteq> nl) rest))"
proof (induction rest arbitrary: n)
  case Nil
  then show ?case by simp
next
  case (Cons c cs)
  then show ?case by (cases n) auto
qed

lemma group_greedy_longest:
  assumes "length rest \<le> B"
  shows "group_greedy kws rest =
     (let ns = [n \<leftarrow> [1..<B]. nl \<notin> set (take n rest)
                  \<and> (\<exists>kw \<in> set kws. prefix ('' '' @ kw) (drop n rest))]
      in if ns = [] then None else Some (take (last ns) rest))"
proof -
  let ?m = "length (takeWhile (\<lambda>c. c \<noteq> nl) rest)"
  let ?P = "\<lambda>n. list_ex (\<lambda>kw. prefix (CHR '' '' # kw) (drop n rest)) kws"
  let ?Q = "\<lambda>n. nl \<notin> set (take n rest) \<and> (\<exists>kw \<in> set kws. prefix ('' '' @ kw) (drop n rest))"
  have lt: "?P n \<Longrightarrow> n < length rest" for n
    by (cases "n < length rest") (auto simp: list_ex_iff)
  have m: "?m \<le> length rest" by (rule length_takeWhile_le)
  have PQ: "?Q n = (n \<le> ?m \<and> ?P n)" for n
  proof (cases "n \<le> length rest")
    case True
    then show ?thesis by (simp add: take_no_nl list_ex_iff)
  next
    case False
    then have "\<not> ?P n" using lt by force
    then show ?thesis by (auto simp: list_ex_iff)
  qed
  have "filter ?Q [1..<B] = filter (\<lambda>n. n \<le> ?m \<and> ?P n) [1..<B]"
    using PQ by (intro filter_cong) auto
  also have "\<dots> = filter (\<lambda>n. n \<le> ?m \<and> ?P n) [1..<Suc ?m]"
    by (rule filter_upt_bound) (use lt assms in force)
  also have "\<dots> = filter ?P [1..<Suc ?m]"
    by (intro filter_cong) auto
  finally have eq: "filter ?Q [1..<B] = filter ?P [1..<Suc ?m]" .
  show ?thesis
    unfolding group_greedy_def Let_def find_rev_filter eq by simp
qed

lemma re_search_drop:
  assumes "k < length line"
  shows "re_search kws (drop k line) =
     (if prefix '': '' (drop k line) then
        (case group_greedy kws (drop (k + 2) line) of
           Some g \<Rightarrow> Some g
         | None \<Rightarrow> re_search kws (drop (Suc k) line))
      else re_search kws (drop (Suc k) line))"
proof -
  obtain c cs where c: "drop k line = c # cs" and cs: "drop (Suc k) line = cs"
    using assms by (metis Cons_nth_drop_Suc)
  have "drop (k + 2) line = drop 2 (drop k line)" by (simp add: add.commute)
  then show ?thesis unfolding c cs by simp
qed

lemma re_search_spec_from:
  "re_search kws (drop k line) =
     (case [i \<leftarrow> [k..<length line]. spec_names '':'' kws line i \<noteq> []] of
        [] \<Rightarrow> None
      | i # _ \<Rightarrow> Some (take (last (spec_names '':'' kws line i))
                      (drop (i + length '':'' + 1) line)))"
proof (induction "length line - k" arbitrary: k)
  case 0
  then show ?case by simp
next
  case (Suc d)
  then have k: "k < length line" by simp
  have up: "[k..<length line] = k # [Suc k..<length line]"
    using k by (simp add: upt_conv_Cons)
  from Suc have IH: "re_search kws (drop (Suc k) line) =
     (case [i \<leftarrow> [Suc k..<length line]. spec_names '':'' kws line i \<noteq> []] of
        [] \<Rightarrow> None
      | i # _ \<Rightarrow> Some (take (last (spec_names '':'' kws line i))
                      (drop (i + length '':'' + 1) line)))"
    by simp
  note rs = re_search_drop [OF k, of kws]
  show ?case
  proof (cases "prefix '': '' (drop k line)")
    case False
    then have "spec_names '':'' kws line k = []"
      by (simp add: spec_names_def spec_match_def)
    with False show ?thesis
      unfolding rs up IH by simp
  next
    case True
    have names: "spec_names '':'' kws line k =
        [n \<leftarrow> [1..<length line]. nl \<notin> set (take n (drop (k + 2) line))
           \<and> (\<exists>kw \<in> set kws. prefix ('' '' @ kw) (drop n (drop (k + 2) line)))]"
      unfolding spec_names_def
      by (intro filter_cong) (use True in \<open>auto simp: spec_match_def add.commute add.left_commute\<close>)
    have gg: "group_greedy kws (drop (k + 2) line) =
        (if spec_names '':'' kws line k = [] then None
         else Some (take (last (spec_names '':'' kws line k)) (drop (k + 2) line)))"
      unfolding names
      using group_greedy_longest [of "drop (k + 2) line" "length line" kws]
      by (simp add: Let_def)
    show ?thesis
    proof (cases "spec_names '':'' kws line k = []")
      case True
      with \<open>prefix '': '' (drop k line)\<close> show ?thesis
        unfolding rs up IH gg by simp
    next
      case False
      with \<open>prefix '': '' (drop k line)\<close> show ?thesis
        unfolding rs up gg by simp
    qed
  qed
qed

lemma re_search_spec: "re_search kws line = spec_extract '':'' kws line"
  using re_search_spec_from [of kws 0 line] by (simp add: spec_extract_def)

lemma search_joined_spec:
  "map_option strip (search_joined line) = spec_enter_name line"
  by (simp add: search_joined_def spec_enter_name_def re_search_spec strip_spec_trim
      option.map_comp comp_def cong: option.map_cong)

lemma search_left_spec:
  "map_option strip (search_left line) = spec_leave_name line"
  by (simp add: search_left_def spec_leave_name_def re_search_spec strip_spec_trim
      option.map_comp comp_def cong: option.map_cong)

lemma spec_extract_phrase:
  assumes "spec_extract sep kws line = Some g"
  shows "\<exists>kw \<in> set kws. sublist kw line"
proof -
  from assms obtain i rest where
    f: "[i \<leftarrow> [0..<length line]. spec_names sep kws line i \<noteq> []] = i # rest"
    by (auto simp: spec_extract_def split: list.splits)
  then have "i \<in> set [i \<leftarrow> [0..<length line]. spec_names sep kws line i \<noteq> []]" by simp
  then have "spec_names sep kws line i \<noteq> []" by simp
  then have "last (spec_names sep kws line i) \<in> set (spec_names sep kws line i)"
    by (rule last_in_set)
  then have "spec_match sep kws line i (last (spec_names sep kws line i))"
    by (simp add: spec_names_def)
  then obtain kw j where kw: "kw \<in> set kws" and p: "prefix ('' '' @ kw) (drop j line)"
    by (auto simp: spec_match_def)
  from p obtain zs where "drop j line = ('' '' @ kw) @ zs" by (auto simp: prefix_def)
  then have "line = (take j line @ '' '') @ kw @ zs"
    by (metis append.assoc append_take_drop_id)
  then have "sublist kw line" unfolding sublist_def by blast
  with kw show ?thesis by blast
qed

lemma classify_precedence: "classify line = precedence_classify line"
proof (cases "sublist ''joined the game'' line")
  case True
  then show ?thesis
    by (cases "search_joined line")
      (simp_all add: classify_def precedence_classify_def str_in_sublist
        search_joined_spec [of line, symmetric])
next
  case False
  then have e: "spec_enter_name line = None"
    using spec_extract_phrase [of "'':''" "[''joined the game'']" line]
    by (cases "spec_extract '':'' [''joined the game''] line") (auto simp: spec_enter_name_def)
  show ?thesis
  proof (cases "sublist ''left the game'' line \<or> sublist ''lost connection'' line")
    case True
    with False e show ?thesis
      by (cases "search_left line")
        (auto simp: classify_def precedence_classify_def str_in_sublist
          search_left_spec [of line, symmetric])
  next
    case no: False
    then have "spec_leave_name line = None"
      using spec_extract_phrase [of "'':''" "[''left the game'', ''lost connection'']" line]
      by (cases "spec_extract '':'' [''left the game'', ''lost connection''] line")
        (auto simp: spec_leave_name_def)
    with False e no show ?thesis
      by (simp add: classify_def precedence_classify_def str_in_sublist)
  qed
qed

lemma replay_precedence: "replay S line = precedence_replay S line"
  by (simp add: replay_def precedence_replay_def classify_precedence)

lemma precedence_replay_code: "precedence_replay = replay"
  by (rule ext)+ (simp add: replay_precedence)

lemma spec_classify_code:
  "spec_classify line =
     (case search_joined line of
        Some g \<Rightarrow> Enter (strip g)
      | None \<Rightarrow> (case search_left line of Some g \<Rightarrow> Leave (strip g) | None \<Rightarrow> Ignore))"
  by (simp add: spec_classify_def search_joined_spec [symmetric] search_left_spec [symmetric]
      split: option.splits)

section \<open>Runs of the monitoring loop\<close>

lemma monitor_loop_run:
  assumes "player_tracker w server = Some st"
  shows "\<exists>w'. monitor_loop iter w server ops reads =
             Inr (w', ops @ concat (map (\<lambda>line. if line = [] then [Readline, Slept 500]
                                                 else [Readline]) reads))
           \<and> player_tracker w' = (player_tracker w)(server \<mapsto>
               st\<lparr>players := foldl precedence_replay (players st) [l \<leftarrow> reads. l \<noteq> []]\<rparr>)"
  using assms
proof (induction reads arbitrary: w ops st)
  case Nil
  then show ?case by (simp add: fun_upd_idem)
next
  case (Cons line later)
  show ?case
  proof (cases "line = []")
    case True
    with Cons.IH [OF Cons.prems, of "ops @ [Readline, Slept 500]"] show ?thesis by simp
  next
    case False
    let ?st1 = "st\<lparr>players := precedence_replay (players st) line\<rparr>"
    from process_line_effect [OF Cons.prems, of iter line] obtain w1 where
      w1: "process_line iter w server line = Inr w1"
          "player_tracker w1 = (player_tracker w)(server \<mapsto> ?st1)"
      by (auto simp: replay_precedence)
    then have "player_tracker w1 server = Some ?st1" by simp
    from Cons.IH [OF this, of "ops @ [Readline]"] obtain w' where
      w': "monitor_loop iter w1 server (ops @ [Readline]) later =
             Inr (w', (ops @ [Readline]) @ concat (map (\<lambda>line. if line = []
                  then [Readline, Slept 500] else [Readline]) later))"
          "player_tracker w' = (player_tracker w1)(server \<mapsto>
             ?st1\<lparr>players := foldl precedence_replay (players ?st1) [l \<leftarrow> later. l \<noteq> []]\<rparr>)"
      by blast
    from w'(2) have "player_tracker w' = (player_tracker w)(server \<mapsto>
        st\<lparr>players := foldl precedence_replay (players st) [l \<leftarrow> line # later. l \<noteq> []]\<rparr>)"
      using False by (simp add: w1(2))
    with w'(1) w1(1) False show ?thesis by (intro exI [of _ w']) simp
  qed
qed

text \<open>
  Claim C1, as stated, fails on a line in which the leave pattern matches and the enter
  phrase stands before the separator: by the classification of the specification it is
  a leave line, and replaying the two lines empties the set; the loop tests for the
  enter phrase first, finds no enter, never tries the leave pattern, and the actor
  stays present.
\<close>

theorem mixed_line_is_no_leave:
  "spec_classify mixed_line = Leave ''Alex''
   \<and> foldl spec_replay {} [log_line ''Alex joined the game'', mixed_line] = {}
   \<and> result_players (loop_world (monitor_loop sorted_list_of_set
        (example_world {} Map.empty \<lparr>msgs = Map.empty, next_id = 0\<rparr>) ''survival'' []
        [log_line ''Alex joined the game'', mixed_line])) ''survival'' = Some {''Alex''}"
proof -
  have a: "spec_classify (log_line ''Alex joined the game'') = Enter ''Alex''"
    unfolding spec_classify_code by code_simp
  have b: "spec_classify mixed_line = Leave ''Alex''"
    unfolding spec_classify_code by code_simp
  have c: "result_players (loop_world (monitor_loop sorted_list_of_set
        (example_world {} Map.empty \<lparr>msgs = Map.empty, next_id = 0\<rparr>) ''survival'' []
        [log_line ''Alex joined the game'', mixed_line])) ''survival'' = Some {''Alex''}"
    by code_simp
  from a b c show ?thesis by (simp add: spec_replay_def)
qed

text \<open>
  Claim C1, amended. For a monitored server and every finite sequence of lines fed to
  the reconciler, the run raises nothing and the final presence set is the fold, over
  the lines in order, of this step on the initial set: a line in which the enter pattern
  (colon, blank, name, blank, enter phrase) matches adds the trimmed name; a line that
  does not hold the enter phrase and in which the leave pattern matches discards the
  trimmed name; any other line, also one that holds the enter phrase and matches only
  the leave pattern, changes nothing. An enter of a present actor and a leave of an
  absent one leave the set as it is. The step is that of section 4.3 on every line but
  those that hold the enter phrase without matching the enter pattern.
\<close>

theorem monitor_loop_replays:
  assumes "player_tracker w server = Some st"
  shows "(\<exists>w' ops' st'. monitor_loop iter w server ops reads = Inr (w', ops')
           \<and> player_tracker w' server = Some st'
           \<and> players st' = foldl precedence_replay (players st) [l \<leftarrow> reads. l \<noteq> []])
         \<and> (precedence_classify line = Enter p \<and> p \<in> S \<longrightarrow> precedence_replay S line = S)
         \<and> (precedence_classify line = Leave p \<and> p \<notin> S \<longrightarrow> precedence_replay S line = S)
         \<and> (\<not> (sublist ''joined the game'' line \<and> spec_enter_name line = None) \<longrightarrow>
              precedence_classify line = spec_classify line
              \<and> precedence_replay S line = spec_replay S line)"
proof -
  from monitor_loop_run [OF assms, of iter ops reads]
  have "\<exists>w' ops' st'. monitor_loop iter w server ops reads = Inr (w', ops')
           \<and> player_tracker w' server = Some st'
           \<and> players st' = foldl precedence_replay (players st) [l \<leftarrow> reads. l \<noteq> []]"
    by auto
  moreover have "precedence_classify line = Enter p \<and> p \<in> S \<longrightarrow> precedence_replay S line = S"
    by (auto simp: precedence_replay_def)
  moreover have "precedence_classify line = Leave p \<and> p \<notin> S \<longrightarrow> precedence_replay S line = S"
    by (auto simp: precedence_replay_def)
  moreover have "\<not> (sublist ''joined the game'' line \<and> spec_enter_name line = None) \<longrightarrow>
      precedence_classify line = spec_classify line
      \<and> precedence_replay S line = spec_replay S line"
    by (auto simp: precedence_classify_def spec_classify_def precedence_replay_def
        spec_replay_def split: option.splits)
  ultimately show ?thesis by blast
qed

theorem monitor_loop_replays_witness:
  "\<exists>w' ops' st'. monitor_loop sorted_list_of_set
       (example_world {} Map.empty \<lparr>msgs = Map.empty, next_id = 0\<rparr>) ''survival'' [] session
       = Inr (w', ops')
     \<and> player_tracker w' ''survival'' = Some st'
     \<and> players st' = {''Alex''}"
proof -
  have f: "foldl precedence_replay {} [l \<leftarrow> session. l \<noteq> []] = {''Alex''}"
    unfolding precedence_replay_code by code_simp
  have t: "player_tracker (example_world {} Map.empty \<lparr>msgs = Map.empty, next_id = 0\<rparr>)
      ''survival'' = Some \<lparr>players = {}, log_file = ''/srv/survival/logs/latest.log'', position = 0\<rparr>"
    by (simp add: example_world_def)
  show ?thesis
    using monitor_loop_replays [OF t, of sorted_list_of_set "[]" session] f
    by auto
qed

section \<open>The tailer\<close>

lemma monitor_loop_idle:
  assumes "\<forall>line \<in> set reads. line = []"
  shows "monitor_loop iter w server ops reads =
           Inr (w, ops @ concat (map (\<lambda>line. if line = [] then [Readline, Slept 500]
                                              else [Readline]) reads))"
  using assms by (induction reads arbitrary: ops) simp_all

text \<open>
  Claim C2, as stated, fails: the task of a server whose stored offset is 200 is started,
  and the file is then cut down to one complete line of 55 bytes, so that both calls
  of \<open>readline\<close> find nothing to read. The task opens the file once and seeks to 200
  once; after that it only calls \<open>readline\<close> and sleeps. It does not open the file
  again, does not seek to 0, logs nothing about a rotation, and the line in the file
  never reaches the presence set.
\<close>

theorem tailer_never_reopens:
  "loop_ops (monitor_player_activity sorted_list_of_set (example_world_at 200) ''survival''
       True [[], []])
     = Some [Opened ''/srv/survival/logs/latest.log'', Seeked 200,
             Readline, Slept 500, Readline, Slept 500]
   \<and> result_players (loop_world (monitor_player_activity sorted_list_of_set
        (example_world_at 200) ''survival'' True [[], []])) ''survival'' = Some {}
   \<and> result_log (loop_world (monitor_player_activity sorted_list_of_set
        (example_world_at 200) ''survival'' True [[], []]))
     = Some [(INFO, Starting_log_monitor ''survival'')]"
  by code_simp

text \<open>
  Claim C2, amended. For every monitored server whose log file can be opened, the
  tailer raises no error of its own and, whatever happens to the file (truncation and
  rotation included), opens \<open>latest.log\<close> exactly once and seeks exactly once, to the
  stored offset; from then on it only calls \<open>readline\<close> on that handle, once per
  iteration, and sleeps 0.5 s after each empty result. It never reopens the file and
  never seeks to offset 0. While \<open>readline\<close> returns nothing, nothing is logged and the
  state does not change.
\<close>

theorem tailer_opens_once:
  assumes "player_tracker w server = Some st"
  shows "\<exists>w'. monitor_player_activity iter w server True reads =
             Inr (w', [Opened (path_join (dirname (log_file st)) ''latest.log''),
                       Seeked (position st)]
                      @ concat (map (\<lambda>line. if line = [] then [Readline, Slept 500]
                                              else [Readline]) reads))
           \<and> ((\<forall>line \<in> set reads. line = []) \<longrightarrow>
                w' = logging INFO (Starting_log_monitor server) w)"
proof -
  let ?w1 = "logging INFO (Starting_log_monitor server) w"
  let ?ops = "[Opened (path_join (dirname (log_file st)) ''latest.log''), Seeked (position st)]"
  have t: "player_tracker ?w1 server = Some st" using assms by (simp add: logging_def)
  from monitor_loop_run [OF t, of iter ?ops reads] obtain w' where
    w': "monitor_loop iter ?w1 server ?ops reads =
           Inr (w', ?ops @ concat (map (\<lambda>line. if line = [] then [Readline, Slept 500]
                                                else [Readline]) reads))"
    by blast
  have "w' = ?w1" if "\<forall>line \<in> set reads. line = []"
    using monitor_loop_idle [OF that, of iter ?w1 server ?ops] w' by simp
  with w' assms show ?thesis
    by (auto simp: monitor_player_activity_def Let_def)
qed

theorem tailer_opens_once_witness:
  "\<exists>w'. monitor_player_activity sorted_list_of_set (example_world_at 200) ''survival'' True
       [[], []]
       = Inr (w', [Opened ''/srv/survival/logs/latest.log'', Seeked 200,
                   Readline, Slept 500, Readline, Slept 500])
     \<and> w' = logging INFO (Starting_log_monitor ''survival'') (example_world_at 200)"
proof -
  have p: "path_join (dirname ''/srv/survival/logs/latest.log'') ''latest.log''
      = ''/srv/survival/logs/latest.log''" by code_simp
  have t: "player_tracker (example_world_at 200) ''survival''
      = Some \<lparr>players = {}, log_file = ''/srv/survival/logs/latest.log'', position = 200\<rparr>"
    by (simp add: example_world_at_def)
  show ?thesis
    using tailer_opens_once [OF t, of sorted_list_of_set "[[], []]"] p
    by auto
qed

text \<open>
  Claim C4, as stated, fails: a line without its line feed, as \<open>readline\<close> returns it
  when the end of the file lies inside the line, is handed to the reconciler at once,
  and the actor is added. When the rest of the line arrives it is read as a line of its
  own, so the name taken from the part (\<open>Steve\<close>) is not the name the complete line
  gives.
\<close>

theorem partial_line_processed:
  "nl \<notin> set partial_line
   \<and> result_players (loop_world (monitor_loop sorted_list_of_set
        (example_world {} Map.empty \<lparr>msgs = Map.empty, next_id = 0\<rparr>) ''survival'' []
        [partial_line])) ''survival'' = Some {''Steve''}
   \<and> result_players (loop_world (monitor_loop sorted_list_of_set
        (example_world {} Map.empty \<lparr>msgs = Map.empty, next_id = 0\<rparr>) ''survival'' []
        [partial_line, rest_of_line])) ''survival'' = Some {''Steve''}
   \<and> result_players (loop_world (monitor_loop sorted_list_of_set
        (example_world {} Map.empty \<lparr>msgs = Map.empty, next_id = 0\<rparr>) ''survival'' []
        [completed_line])) ''survival'' = Some {''Steve joined the game and Alex''}"
  by code_simp

text \<open>
  Claim C4, amended. For a monitored server, every non-empty string that \<open>readline\<close>
  returns is handed to the reconciler in the same iteration, whether or not it ends
  with the line terminator: the loop holds nothing back and does not wait for the
  terminator. A partially written line is thus processed like a complete one: the name
  its text gives is added to or discarded from the presence set at once.
\<close>

theorem unterminated_line_is_processed:
  assumes "player_tracker w server = Some st" and "line \<noteq> []"
  shows "\<exists>w' st'. process_line iter w server line = Inr w'
           \<and> monitor_loop iter w server ops (line # later) =
               monitor_loop iter w' server (ops @ [Readline]) later
           \<and> player_tracker w' server = Some st'
           \<and> players st' = precedence_replay (players st) line"
  using process_line_effect [OF assms(1), of iter line] assms(2)
  by (auto simp: replay_precedence)

theorem unterminated_line_is_processed_witness:
  "partial_line \<noteq> [] \<and> last partial_line \<noteq> nl
   \<and> (\<exists>w' st'. process_line sorted_list_of_set
          (example_world {} Map.empty \<lparr>msgs = Map.empty, next_id = 0\<rparr>) ''survival''
          partial_line = Inr w'
        \<and> player_tracker w' ''survival'' = Some st'
        \<and> players st' = {''Steve''})"
proof -
  have h: "partial_line \<noteq> []" "last partial_line \<noteq> nl" by code_simp+
  have r: "precedence_replay {} partial_line = {''Steve''}"
    unfolding precedence_replay_code by code_simp
  have t: "player_tracker (example_world {} Map.empty \<lparr>msgs = Map.empty, next_id = 0\<rparr>)
      ''survival'' = Some \<lparr>players = {}, log_file = ''/srv/survival/logs/latest.log'', position = 0\<rparr>"
    by (simp add: example_world_def)
  show ?thesis
    using unterminated_line_is_processed [OF t h(1), of sorted_list_of_set "[]" "[]"] h r
    by auto
qed

section \<open>The read offset\<close>

lemma update_embed_file:
  "update_embed iter w server = Inr w' \<Longrightarrow>
     (embed_tracker w' = embed_tracker w \<and> embed_ids_file w' = embed_ids_file w)
     \<or> embed_ids_file w' = Some (embed_tracker w')"
  by (auto simp: update_embed_def Let_def send_and_bind_def save_embed_ids_def logging_def
      send_def split: option.splits sum.splits if_splits)

lemma process_line_file:
  "process_line iter w server line = Inr w' \<Longrightarrow>
     (embed_tracker w' = embed_tracker w \<and> embed_ids_file w' = embed_ids_file w)
     \<or> embed_ids_file w' = Some (embed_tracker w')"
  by (auto simp: process_line_def enter_branch_def leave_branch_def add_player_def
      discard_player_def Let_def logging_def
      split: option.splits sum.splits if_splits dest!: update_embed_file)

lemma monitor_loop_file:
  "monitor_loop iter w server ops reads = Inr (w', ops') \<Longrightarrow>
     (embed_tracker w' = embed_tracker w \<and> embed_ids_file w' = embed_ids_file w)
     \<or> embed_ids_file w' = Some (embed_tracker w')"
proof (induction reads arbitrary: w ops)
  case Nil
  then show ?case by simp
next
  case (Cons line later)
  show ?case
  proof (cases "line = []")
    case True
    with Cons show ?thesis by simp
  next
    case False
    with Cons.prems obtain w1 where
      w1: "process_line iter w server line = Inr w1"
          "monitor_loop iter w1 server (ops @ [Readline]) later = Inr (w', ops')"
      by (auto split: sum.splits)
    from process_line_file [OF w1(1)] Cons.IH [OF w1(2)] show ?thesis by auto
  qed
qed

lemma log_without_offsets_iff:
  "log_without_offsets w w' \<longleftrightarrow>
     (\<exists>extra. activity_log w' = activity_log w @ extra \<and> filter records_offset extra = [])"
  by (auto simp: log_without_offsets_def prefix_def)

lemma update_embed_log:
  "update_embed iter w server = Inr w' \<Longrightarrow>
     \<exists>extra. activity_log w' = activity_log w @ extra \<and> filter records_offset extra = []"
  by (auto simp: update_embed_def Let_def send_and_bind_def save_embed_ids_def logging_def
      send_def records_offset_def split: option.splits sum.splits if_splits)

lemma process_line_log:
  "process_line iter w server line = Inr w' \<Longrightarrow>
     \<exists>extra. activity_log w' = activity_log w @ extra \<and> filter records_offset extra = []"
  by (auto simp: process_line_def enter_branch_def leave_branch_def add_player_def
      discard_player_def Let_def logging_def records_offset_def
      split: option.splits sum.splits if_splits dest!: update_embed_log)

lemma monitor_loop_log:
  "monitor_loop iter w server ops reads = Inr (w', ops') \<Longrightarrow> log_without_offsets w w'"
proof (induction reads arbitrary: w ops)
  case Nil
  then show ?case by (simp add: log_without_offsets_iff)
next
  case (Cons line later)
  show ?case
  proof (cases "line = []")
    case True
    with Cons show ?thesis by simp
  next
    case False
    with Cons.prems obtain w1 where
      w1: "process_line iter w server line = Inr w1"
          "monitor_loop iter w1 server (ops @ [Readline]) later = Inr (w', ops')"
      by (auto split: sum.splits)
    from process_line_log [OF w1(1)] Cons.IH [OF w1(2)] show ?thesis
      by (auto simp: log_without_offsets_iff)
  qed
qed

lemma initialize_server_effect:
  "\<exists>w' st'. initialize_server iter server_dir w server True (Some pos) = Inr w'
     \<and> player_tracker w' server = Some st'
     \<and> position st' = pos
     \<and> players st' = {}"
proof -
  let ?st = "\<lparr>players = {},
      log_file = path_join (path_join (path_join server_dir server) ''logs'') ''latest.log'',
      position = pos\<rparr>"
  let ?w1 = "w\<lparr>player_tracker := (player_tracker w)(server \<mapsto> ?st)\<rparr>"
  have "player_tracker ?w1 server = Some ?st" by simp
  from update_embed_effect [OF this, of iter] obtain w2 where
    "update_embed iter ?w1 server = Inr w2" "player_tracker w2 = player_tracker ?w1"
    by blast
  then show ?thesis
    by (simp add: initialize_server_def Let_def logging_def)
qed

text \<open>
  Claim C3, as stated, fails. A task started at the stored offset 0 consumes one line (of
  55 bytes): the actor is added, but the offset stored for the server is still 0 and the
  log of the bot states no offset. And a process started on a log file of 109 bytes,
  which holds that line and a second one never processed, sets the stored offset to
  109, the end of the file, whatever was consumed before: the second line is skipped.
\<close>

theorem cursor_not_persisted:
  "result_players (loop_world (monitor_player_activity sorted_list_of_set
        (example_world_at 0) ''survival'' True [log_line ''Steve joined the game'']))
       ''survival'' = Some {''Steve''}
   \<and> result_position (loop_world (monitor_player_activity sorted_list_of_set
        (example_world_at 0) ''survival'' True [log_line ''Steve joined the game'']))
       ''survival'' = Some 0
   \<and> result_log (loop_world (monitor_player_activity sorted_list_of_set
        (example_world_at 0) ''survival'' True [log_line ''Steve joined the game'']))
     = Some [(INFO, Starting_log_monitor ''survival''),
             (DEBUG, New_log_entry ''survival''
                ''[12:00:01] [Server thread/INFO]: Steve joined the game''),
             (INFO, Embed_ids_saved),
             (INFO, Player_joined ''Steve'' ''survival'')]
   \<and> result_position (startup sorted_list_of_set ''/srv'' None \<lparr>msgs = Map.empty, next_id = 0\<rparr>
        (Some 1) ''survival'' True (Some 109)) ''survival'' = Some 109"
  by code_simp

text \<open>
  Claim C3, amended. For a monitored server, consuming lines advances no stored offset:
  the offset and the path in \<open>player_tracker\<close> keep their start-up values however many
  lines the loop consumes, and no cursor record is written. Of the two files the bot
  writes, the bindings file is either untouched or holds the current bindings, and the
  log of the bot gains no record that states an offset (its one such record is written
  at start-up, and the log is never read back). At start-up the stored offset is set
  to the end of the log file as the handle reports it, and the presence set to empty,
  whatever an earlier process had consumed and whatever the bindings file holds.
\<close>

theorem stored_offset_never_advances:
  assumes "player_tracker w server = Some st"
  shows "(\<exists>w' ops' st'. monitor_loop iter w server ops reads = Inr (w', ops')
           \<and> player_tracker w' server = Some st'
           \<and> position st' = position st
           \<and> log_file st' = log_file st
           \<and> ((embed_tracker w' = embed_tracker w \<and> embed_ids_file w' = embed_ids_file w)
                \<or> embed_ids_file w' = Some (embed_tracker w'))
           \<and> log_without_offsets w w')
         \<and> (\<exists>w'' st''. startup iter server_dir file ch found server True (Some end_offset)
                 = Inr w''
               \<and> player_tracker w'' server = Some st''
               \<and> position st'' = end_offset
               \<and> players st'' = {})"
proof
  from monitor_loop_run [OF assms, of iter ops reads] obtain w' ops' where
    run: "monitor_loop iter w server ops reads = Inr (w', ops')"
      "player_tracker w' = (player_tracker w)(server \<mapsto>
         st\<lparr>players := foldl precedence_replay (players st) [l \<leftarrow> reads. l \<noteq> []]\<rparr>)"
    by blast
  from monitor_loop_file [OF run(1)] monitor_loop_log [OF run(1)] run
  show "\<exists>w' ops' st'. monitor_loop iter w server ops reads = Inr (w', ops')
           \<and> player_tracker w' server = Some st'
           \<and> position st' = position st
           \<and> log_file st' = log_file st
           \<and> ((embed_tracker w' = embed_tracker w \<and> embed_ids_file w' = embed_ids_file w)
                \<or> embed_ids_file w' = Some (embed_tracker w'))
           \<and> log_without_offsets w w'"
    by auto
next
  from initialize_server_effect show "\<exists>w'' st''.
      startup iter server_dir file ch found server True (Some end_offset) = Inr w''
      \<and> player_tracker w'' server = Some st''
      \<and> position st'' = end_offset
      \<and> players st'' = {}"
    by (simp add: startup_def Let_def)
qed

theorem stored_offset_never_advances_witness:
  "(\<exists>w' ops' st'. monitor_loop sorted_list_of_set (example_world_at 0) ''survival'' []
        [log_line ''Steve joined the game''] = Inr (w', ops')
      \<and> player_tracker w' ''survival'' = Some st'
      \<and> position st' = 0
      \<and> log_without_offsets (example_world_at 0) w')
   \<and> (\<exists>w'' st''. startup sorted_list_of_set ''/srv'' None \<lparr>msgs = Map.empty, next_id = 0\<rparr>
          (Some 1) ''survival'' True (Some 109) = Inr w''
      \<and> player_tracker w'' ''survival'' = Some st''
      \<and> position st'' = 109)"
proof -
  have t: "player_tracker (example_world_at 0) ''survival''
      = Some \<lparr>players = {}, log_file = ''/srv/survival/logs/latest.log'', position = 0\<rparr>"
    by (simp add: example_world_at_def)
  show ?thesis
    using stored_offset_never_advances [OF t, of sorted_list_of_set "[]"
      "[log_line ''Steve joined the game'']" "''/srv''" None "\<lparr>msgs = Map.empty, next_id = 0\<rparr>"
      "Some 1" 109]
    by auto
qed

end
